theory Spec2Isabelle
  imports Main
begin

section \<open>Python strings and the Unicode tables\<close>

text \<open>
  A Python \<open>str\<close> is a sequence of Unicode code points; \<open>len\<close>, indexing, \<open>strip\<close> and
  the \<open>re\<close> module all work on code points. A string is therefore a list of code points,
  each a natural number. \<open>ascii\<close> writes an ASCII literal.
\<close>

type_synonym ustr = "nat list"

definition ascii :: "string \<Rightarrow> ustr" where
  "ascii s = map of_char s"

text \<open>
  The Unicode Character Database that \<open>unicodedata\<close>, \<open>re\<close>, \<open>int\<close> and \<open>float\<close> consult
  belongs to the Python runtime, not to the repository, and changes with the Python version.
  It is a parameter of the model:
  \<^item> \<open>decimal c\<close> is the digit value of a code point of category Nd (what \<open>\d\<close> matches and
    \<open>int\<close> reads), \<open>None\<close> for any other code point;
  \<^item> \<open>lower c\<close> and \<open>upper c\<close> are the simple case mappings that \<open>re.IGNORECASE\<close> uses;
  \<^item> \<open>decomp c\<close> is the full compatibility decomposition of \<open>c\<close> (\<open>[c]\<close> when it has none);
  \<^item> \<open>ccc c\<close> is the canonical combining class, \<open>unicodedata.combining\<close>.
\<close>

record ucd =
  decimal :: "nat \<Rightarrow> nat option"
  lower :: "nat \<Rightarrow> nat"
  upper :: "nat \<Rightarrow> nat"
  decomp :: "nat \<Rightarrow> nat list"
  ccc :: "nat \<Rightarrow> nat"

text \<open>
  The rows of the database for the code points used in the examples of this theory:
  ASCII, U+00B2 SUPERSCRIPT TWO, U+00B4 ACUTE ACCENT, U+00C9 and U+00E9 (E and e with acute),
  U+00D3 and U+00F3 (O and o with acute) and U+0301 COMBINING ACUTE ACCENT. On every other
  code point \<open>ucd_sample\<close> is the identity row and does not claim to agree with Unicode.
\<close>

definition ucd_sample :: ucd where
  "ucd_sample = \<lparr>
     decimal = (\<lambda>c. if 48 \<le> c \<and> c \<le> 57 then Some (c - 48) else None),
     lower = (\<lambda>c. if 65 \<le> c \<and> c \<le> 90 then c + 32
                else if c = 201 then 233 else if c = 211 then 243 else c),
     upper = (\<lambda>c. if 97 \<le> c \<and> c \<le> 122 then c - 32
                else if c = 233 then 201 else if c = 243 then 211 else c),
     decomp = (\<lambda>c. if c = 178 then [50]
                else if c = 180 then [32, 769]
                else if c = 201 then [69, 769]
                else if c = 211 then [79, 769]
                else if c = 233 then [101, 769]
                else if c = 243 then [111, 769]
                else [c]),
     ccc = (\<lambda>c. if c = 769 then 230 else 0) \<rparr>"

text \<open>
  \<open>str.isspace\<close> for one code point, which is also what \<open>\s\<close> matches in a \<open>str\<close> pattern:
  U+0009..U+000D, U+001C..U+0020, U+0085, U+00A0, U+1680, U+2000..U+200A, U+2028, U+2029,
  U+202F, U+205F, U+3000.
\<close>

definition isspace :: "nat \<Rightarrow> bool" where
  "isspace c \<longleftrightarrow> (9 \<le> c \<and> c \<le> 13) \<or> (28 \<le> c \<and> c \<le> 32) \<or> c = 133 \<or> c = 160
     \<or> c = 5760 \<or> (8192 \<le> c \<and> c \<le> 8202) \<or> c = 8232 \<or> c = 8233 \<or> c = 8239
     \<or> c = 8287 \<or> c = 12288"

definition isdecimal :: "ucd \<Rightarrow> nat \<Rightarrow> bool" where
  "isdecimal U c \<longleftrightarrow> decimal U c \<noteq> None"

text \<open>\<open>s.strip()\<close> and \<open>s.strip(chars)\<close>.\<close>

definition strip_by :: "(nat \<Rightarrow> bool) \<Rightarrow> ustr \<Rightarrow> ustr" where
  "strip_by p s = rev (dropWhile p (rev (dropWhile p s)))"

definition strip :: "ustr \<Rightarrow> ustr" where
  "strip s = strip_by isspace s"

definition strip_chars :: "ustr \<Rightarrow> ustr \<Rightarrow> ustr" where
  "strip_chars cs s = strip_by (\<lambda>c. c \<in> set cs) s"

text \<open>
  The whitespace that \<open>int\<close> and \<open>float\<close> drop around a number. They first turn every
  whitespace code point above U+007F into a space and then skip the ASCII whitespace
  U+0009..U+000D and U+0020: the separators U+001C..U+001F, which \<open>str.isspace\<close> accepts,
  are not dropped.
\<close>

definition number_space :: "nat \<Rightarrow> bool" where
  "number_space c \<longleftrightarrow> isspace c \<and> \<not> (28 \<le> c \<and> c \<le> 31)"

definition number_strip :: "ustr \<Rightarrow> ustr" where
  "number_strip s = strip_by number_space s"

datatype py_error = ValueError

section \<open>The regular expressions of the \<open>re\<close> module\<close>

text \<open>
  The patterns of the source use character classes, concatenation, alternation, greedy
  and lazy repetition, capturing groups and the anchors \<open>^\<close> and \<open>$\<close>. \<open>re\<close> is a
  backtracking matcher: among all the ways a pattern can match at a position it takes
  the first in a fixed order (a greedy \<open>*\<close> tries one more iteration before stopping, a
  lazy \<open>*?\<close> tries stopping first, \<open>a|b\<close> tries \<open>a\<close> first). \<open>ms r st\<close> lists, in that
  order, the states in which a match of \<open>r\<close> begun in state \<open>st\<close> can end. A state is the
  position reached, the text that remains and the groups captured so far.
\<close>

datatype re =
    Cls "nat \<Rightarrow> bool"
  | Eps
  | Seq re re
  | Alt re re
  | Star re
  | Lazy re
  | Grp nat re
  | Bol
  | Eol

type_synonym caps = "nat \<Rightarrow> ustr option"
type_synonym mstate = "nat \<times> ustr \<times> caps"

fun ms :: "re \<Rightarrow> mstate \<Rightarrow> mstate list" where
  "ms (Cls p) (i, s, g) =
     (case s of [] \<Rightarrow> [] | c # cs \<Rightarrow> if p c then [(Suc i, cs, g)] else [])"
| "ms Eps st = [st]"
| "ms (Seq a b) st = concat (map (ms b) (ms a st))"
| "ms (Alt a b) st = ms a st @ ms b st"
| "ms (Star a) (i, s, g) =
     concat (map (\<lambda>(j, t, h). if length t < length s then ms (Star a) (j, t, h) else [])
                 (ms a (i, s, g))) @ [(i, s, g)]"
| "ms (Lazy a) (i, s, g) =
     (i, s, g) # concat (map (\<lambda>(j, t, h). if length t < length s then ms (Lazy a) (j, t, h) else [])
                            (ms a (i, s, g)))"
| "ms (Grp n a) (i, s, g) =
     map (\<lambda>(j, t, h). (j, t, h(n \<mapsto> take (j - i) s))) (ms a (i, s, g))"
| "ms Bol (i, s, g) = (if i = 0 then [(i, s, g)] else [])"
| "ms Eol (i, s, g) = (if s = [] \<or> s = [10] then [(i, s, g)] else [])"

text \<open>
  \<open>$\<close> without \<open>re.MULTILINE\<close> matches at the end of the string and just before a newline
  that ends the string; \<open>^\<close> matches at position 0 only.
\<close>

definition seqs :: "re list \<Rightarrow> re" where
  "seqs rs = foldr Seq rs Eps"

fun alts :: "re list \<Rightarrow> re" where
  "alts [] = Eps"
| "alts [r] = r"
| "alts (r # rs) = Alt r (alts rs)"

definition plus :: "re \<Rightarrow> re" where
  "plus r = Seq r (Star r)"

definition opt :: "re \<Rightarrow> re" where
  "opt r = Alt r Eps"

definition times :: "nat \<Rightarrow> re \<Rightarrow> re" where
  "times n r = seqs (replicate n r)"

definition lit :: "nat \<Rightarrow> re" where
  "lit c = Cls (\<lambda>x. x = c)"

definition str_re :: "ustr \<Rightarrow> re" where
  "str_re s = seqs (map lit s)"

text \<open>\<open>\s\<close>, \<open>\d\<close> and \<open>.\<close> (any code point but the newline, as \<open>re.DOTALL\<close> is not set).\<close>

definition sp :: re where
  "sp = Cls isspace"

definition dg :: "ucd \<Rightarrow> re" where
  "dg U = Cls (isdecimal U)"

definition dot :: re where
  "dot = Cls (\<lambda>c. c \<noteq> 10)"

text \<open>
  A literal under \<open>re.IGNORECASE\<close>. The pattern compiler leaves an uncased literal as it
  is; for a cased one it compares the lower-cased subject character with the lower-cased
  literal and with the extra equivalents of its table \<open>_equivalences\<close>. Of that table only
  the rows of letters that occur in the patterns of the source are listed: dotless i
  (U+0131) for \<open>i\<close> and long s (U+017F) for \<open>s\<close>.
\<close>

definition fixes_tab :: "nat \<Rightarrow> nat list" where
  "fixes_tab lo = (if lo = 105 then [305] else if lo = 115 then [383] else [])"

definition iscased :: "ucd \<Rightarrow> nat \<Rightarrow> bool" where
  "iscased U c \<longleftrightarrow> c \<noteq> lower U c \<or> c \<noteq> upper U c"

definition ilit :: "ucd \<Rightarrow> nat \<Rightarrow> re" where
  "ilit U c =
     (if iscased U c
      then Cls (\<lambda>x. lower U x \<in> set (lower U c # fixes_tab (lower U c)))
      else lit c)"

definition istr :: "ucd \<Rightarrow> ustr \<Rightarrow> re" where
  "istr U s = seqs (map (ilit U) s)"

text \<open>
  \<open>re.match\<close> tries position 0 only; \<open>re.search\<close> tries every position from the left and
  takes the first at which the pattern matches. Both give the start, the end and the
  groups of the match.
\<close>

type_synonym match = "nat \<times> nat \<times> caps"

definition re_match :: "re \<Rightarrow> ustr \<Rightarrow> match option" where
  "re_match r s =
     (case ms r (0, s, Map.empty) of [] \<Rightarrow> None | (j, t, g) # _ \<Rightarrow> Some (0, j, g))"

fun search_from :: "re \<Rightarrow> nat \<Rightarrow> ustr \<Rightarrow> match option" where
  "search_from r i [] =
     (case ms r (i, [], Map.empty) of [] \<Rightarrow> None | (j, t, g) # _ \<Rightarrow> Some (i, j, g))"
| "search_from r i (c # cs) =
     (case ms r (i, c # cs, Map.empty) of
        [] \<Rightarrow> search_from r (Suc i) cs
      | (j, t, g) # _ \<Rightarrow> Some (i, j, g))"

definition re_search :: "re \<Rightarrow> ustr \<Rightarrow> match option" where
  "re_search r s = search_from r 0 s"

definition fullmatch :: "re \<Rightarrow> ustr \<Rightarrow> bool" where
  "fullmatch r s \<longleftrightarrow> list_ex (\<lambda>(j, t, g). t = []) (ms r (0, s, Map.empty))"

text \<open>
  \<open>re.sub(pattern, repl, s)\<close> with a replacement that has no group reference: every
  leftmost non-overlapping match is replaced. After a match that consumed nothing the
  scan copies one code point and goes on behind it. (No pattern of the source can match
  the empty string.)
\<close>

function sub_from :: "re \<Rightarrow> ustr \<Rightarrow> nat \<Rightarrow> ustr \<Rightarrow> ustr" where
  "sub_from r repl i [] = (case ms r (i, [], Map.empty) of [] \<Rightarrow> [] | _ # _ \<Rightarrow> repl)"
| "sub_from r repl i (c # cs) =
     (case ms r (i, c # cs, Map.empty) of
        [] \<Rightarrow> c # sub_from r repl (Suc i) cs
      | (j, t, g) # _ \<Rightarrow>
          if length t < Suc (length cs) then repl @ sub_from r repl j t
          else repl @ c # sub_from r repl (Suc i) cs)"
  by pat_completeness auto
termination
  by (relation "measure (\<lambda>(r, repl, i, s). length s)") auto

definition re_sub :: "re \<Rightarrow> ustr \<Rightarrow> ustr \<Rightarrow> ustr" where
  "re_sub r repl s = sub_from r repl 0 s"

text \<open>\<open>m.group(n)\<close>; a group that took no part in the match reads as \<open>None\<close>.\<close>

definition group :: "match \<Rightarrow> nat \<Rightarrow> ustr option" where
  "group m n = (case m of (i, j, g) \<Rightarrow> g n)"

section \<open>Title cleaning\<close>

text \<open>\<open>tidy_whitespace\<close>: \<open>re.sub(r"\s+", " ", s).strip()\<close>.\<close>

definition tidy_whitespace :: "ustr \<Rightarrow> ustr" where
  "tidy_whitespace s = strip (re_sub (plus sp) [32] s)"

text \<open>
  \<open>base_clean\<close>: \<open>re.sub(r"\s*\(\d{4}\)\s*$", "", title).strip()\<close>, then
  a second \<open>strip\<close> whose argument holds the three characters space, double quote and
  apostrophe, then
  \<open>tidy_whitespace\<close>.
\<close>

definition year_tail :: "ucd \<Rightarrow> re" where
  "year_tail U = seqs [Star sp, lit 40, times 4 (dg U), lit 41, Star sp, Eol]"

definition quote_chars :: ustr where
  "quote_chars = [32, 34, 39]"

definition base_clean :: "ucd \<Rightarrow> ustr \<Rightarrow> ustr" where
  "base_clean U title =
     (let t = strip (re_sub (year_tail U) [] title);
          t = strip_chars quote_chars t
      in tidy_whitespace t)"

text \<open>
  \<open>move_trailing_article\<close>: \<open>re.match(r'^(.*),\s*(The|A|An)$', t, flags=re.IGNORECASE)\<close>;
  on a match the result is the formatted string \<open>f"{m.group(2)} {m.group(1)}".strip()\<close>.
  An f-string writes a group that took no part in the match as the text \<open>None\<close>.
\<close>

definition article_re :: "ucd \<Rightarrow> re" where
  "article_re U =
     seqs [Bol, Grp 1 (Star dot), lit 44, Star sp,
           Grp 2 (alts [istr U (ascii ''The''), istr U (ascii ''A''), istr U (ascii ''An'')]),
           Eol]"

definition fmt :: "ustr option \<Rightarrow> ustr" where
  "fmt v = (case v of None \<Rightarrow> ascii ''None'' | Some s \<Rightarrow> s)"

definition move_trailing_article :: "ucd \<Rightarrow> ustr \<Rightarrow> ustr" where
  "move_trailing_article U t =
     (case re_match (article_re U) t of
        Some m \<Rightarrow> strip (fmt (group m 2) @ [32] @ fmt (group m 1))
      | None \<Rightarrow> t)"

text \<open>
  \<open>remove_parenthetical_alternates\<close>: a first \<open>re.sub\<close> with \<open>re.IGNORECASE\<close> replaces by one
  space every parenthesis group in which one of the marker words occurs, a second
  replaces every remaining group \<open>\s*\([^)]*\)\s*\<close>; the result goes through
  \<open>tidy_whitespace\<close>. The marker words are, in the order of the pattern: a.k.a., aka,
  original, original title, la, le, der, el, cite, cit\<open>U+00E9\<close>, versi\<open>U+00F3\<close>n, version.
\<close>

definition markers :: "ustr list" where
  "markers =
     [ascii ''a.k.a.'', ascii ''aka'', ascii ''original'', ascii ''original title'',
      ascii ''la'', ascii ''le'', ascii ''der'', ascii ''el'', ascii ''cite'',
      ascii ''cit'' @ [233], ascii ''versi'' @ [243] @ ascii ''n'', ascii ''version'']"

definition marked_paren_re :: "ucd \<Rightarrow> re" where
  "marked_paren_re U =
     seqs [Star sp, lit 40, Lazy dot, Grp 1 (alts (map (istr U) markers)), Lazy dot,
           lit 41, Star sp]"

definition any_paren_re :: re where
  "any_paren_re = seqs [Star sp, lit 40, Star (Cls (\<lambda>c. c \<noteq> 41)), lit 41, Star sp]"

definition remove_parenthetical_alternates :: "ucd \<Rightarrow> ustr \<Rightarrow> ustr" where
  "remove_parenthetical_alternates U t =
     (let t2 = re_sub (marked_paren_re U) [32] t;
          t2 = re_sub any_paren_re [32] t2
      in tidy_whitespace t2)"

text \<open>
  \<open>extract_parenthetical_alternate\<close>: \<open>re.search(r'\(([^)]+)\)', t)\<close>; the stripped inside of
  the first group is returned when it has at most 30 code points and no comma. Group 1
  takes part in every match of this pattern (lemma \<open>inner_paren_group\<close> below), so the
  branch for an unset group is never taken.
\<close>

definition inner_paren_re :: re where
  "inner_paren_re = seqs [lit 40, Grp 1 (plus (Cls (\<lambda>c. c \<noteq> 41))), lit 41]"

definition extract_parenthetical_alternate :: "ustr \<Rightarrow> ustr option" where
  "extract_parenthetical_alternate t =
     (case re_search inner_paren_re t of
        None \<Rightarrow> None
      | Some m \<Rightarrow>
          (case group m 1 of
             None \<Rightarrow> None
           | Some g1 \<Rightarrow>
               (let inside = strip g1
                in if length inside \<le> 30 \<and> 44 \<notin> set inside then Some inside else None)))"

section \<open>Diacritics\<close>

text \<open>
  \<open>unicodedata.normalize("NFKD", text)\<close> replaces every code point by its full compatibility
  decomposition and then puts every maximal run of combining marks (code points of
  non-zero combining class) into canonical order, a stable sort by combining class.
\<close>

fun reorder :: "ucd \<Rightarrow> ustr \<Rightarrow> ustr \<Rightarrow> ustr" where
  "reorder U run [] = sort_key (ccc U) run"
| "reorder U run (c # cs) =
     (if ccc U c = 0 then sort_key (ccc U) run @ c # reorder U [] cs
      else reorder U (run @ [c]) cs)"

definition nfkd :: "ucd \<Rightarrow> ustr \<Rightarrow> ustr" where
  "nfkd U text = reorder U [] (concat (map (decomp U) text))"

text \<open>
  A Python value as far as \<open>remove_diacritics\<close> tells values apart: a string, or something
  that is not a string and is handed back as it is.
\<close>

datatype pyval = Str ustr | NoneVal | IntVal int

fun remove_diacritics :: "ucd \<Rightarrow> pyval \<Rightarrow> pyval" where
  "remove_diacritics U (Str text) = Str (filter (\<lambda>c. ccc U c = 0) (nfkd U text))"
| "remove_diacritics U v = v"

section \<open>Candidate generation\<close>

text \<open>
  \<open>generate_title_candidates\<close>. The first loop runs over \<open>[moved, removed_paren, alt, base]\<close>,
  where \<open>alt\<close> may be \<open>None\<close>; \<open>if t and t not in candidates\<close> skips \<open>None\<close>, the empty string
  and a string already in the list. The second loop runs over a copy of the list and
  appends to the list itself. The returned list is
  \<open>[tidy_whitespace(c) for c in candidates if c]\<close>.
\<close>

definition add_candidate :: "ustr list \<Rightarrow> ustr option \<Rightarrow> ustr list" where
  "add_candidate candidates t =
     (case t of
        None \<Rightarrow> candidates
      | Some x \<Rightarrow> if x \<noteq> [] \<and> x \<notin> set candidates then candidates @ [x] else candidates)"

definition add_translit :: "ucd \<Rightarrow> ustr list \<Rightarrow> ustr \<Rightarrow> ustr list" where
  "add_translit U candidates c =
     (case remove_diacritics U (Str c) of
        Str translit \<Rightarrow>
          if translit \<noteq> c \<and> translit \<notin> set candidates then candidates @ [translit]
          else candidates
      | _ \<Rightarrow> candidates)"

definition generate_title_candidates :: "ucd \<Rightarrow> ustr \<Rightarrow> ustr list" where
  "generate_title_candidates U original_title =
     (let base = base_clean U original_title
      in if base = [] then []
         else
           let moved = move_trailing_article U base;
               removed_paren = remove_parenthetical_alternates U base;
               alt = extract_parenthetical_alternate base;
               candidates = foldl add_candidate [] [Some moved, Some removed_paren, alt, Some base];
               candidates = foldl (add_translit U) candidates candidates
           in map tidy_whitespace (filter (\<lambda>c. c \<noteq> []) candidates))"

section \<open>The release year\<close>

text \<open>
  \<open>int(s)\<close> for a string: surrounding whitespace is dropped (\<open>number_strip\<close>), then an
  optional sign and decimal digits, single underscores allowed between digits; anything
  else raises \<open>ValueError\<close>.
\<close>

definition int_re :: "ucd \<Rightarrow> re" where
  "int_re U = seqs [opt (Alt (lit 43) (lit 45)), dg U, Star (Seq (opt (lit 95)) (dg U))]"

definition digits_value :: "ucd \<Rightarrow> ustr \<Rightarrow> int" where
  "digits_value U s =
     foldl (\<lambda>a c. case decimal U c of Some v \<Rightarrow> 10 * a + int v | None \<Rightarrow> a) 0 s"

definition py_int :: "ucd \<Rightarrow> ustr \<Rightarrow> py_error + int" where
  "py_int U s =
     (let t = number_strip s
      in if fullmatch (int_re U) t
         then Inr (if take 1 t = [45] then - digits_value U t else digits_value U t)
         else Inl ValueError)"

text \<open>
  The lambda of \<open>extract_movies\<close> that fills the column \<open>release_year\<close>:
  \<open>int(re.search(r'\((\d{4})\)', t).group(1)) if re.search(r'\((\d{4})\)', t) else None\<close>.
  Group 1 takes part in every match of the pattern (lemma \<open>year_paren_group\<close> below).
\<close>

definition year_paren_re :: "ucd \<Rightarrow> re" where
  "year_paren_re U = seqs [lit 40, Grp 1 (times 4 (dg U)), lit 41]"

definition release_year :: "ucd \<Rightarrow> ustr \<Rightarrow> py_error + int option" where
  "release_year U t =
     (case re_search (year_paren_re U) t of
        None \<Rightarrow> Inr None
      | Some m \<Rightarrow>
          (case py_int U (fmt (group m 1)) of
             Inl e \<Rightarrow> Inl e
           | Inr y \<Rightarrow> Inr (Some y)))"

section \<open>The OMDb lookup\<close>

text \<open>
  \<open>float(s)\<close> for a string: surrounding whitespace is dropped (\<open>number_strip\<close>); what remains is an optional
  sign followed by \<open>inf\<close>, \<open>infinity\<close> or \<open>nan\<close> in any letter case, or by a decimal number
  (digits with single underscores allowed between them, an optional point, an optional
  exponent). Anything else raises \<open>ValueError\<close>. The value read is kept as \<open>FloatOf\<close> the
  text; its binary rounding is not part of the model.
\<close>

datatype pyfloat = FloatOf ustr

definition alit :: "nat \<Rightarrow> re" where
  "alit c = Cls (\<lambda>x. x = c \<or> x + 32 = c)"

definition astr :: "string \<Rightarrow> re" where
  "astr s = seqs (map alit (ascii s))"

definition digitpart :: "ucd \<Rightarrow> re" where
  "digitpart U = Seq (dg U) (Star (Seq (opt (lit 95)) (dg U)))"

definition sign_re :: re where
  "sign_re = Alt (lit 43) (lit 45)"

definition float_re :: "ucd \<Rightarrow> re" where
  "float_re U =
     (let number = Alt (seqs [opt (digitpart U), lit 46, digitpart U])
                       (seqs [digitpart U, opt (lit 46)]);
          exponent = seqs [Alt (lit 101) (lit 69), opt sign_re, digitpart U];
          floatnumber = Seq number (opt exponent)
      in Seq (opt sign_re) (alts [floatnumber, astr ''infinity'', astr ''inf'', astr ''nan'']))"

definition py_float :: "ucd \<Rightarrow> ustr \<Rightarrow> py_error + pyfloat" where
  "py_float U s =
     (if fullmatch (float_re U) (number_strip s) then Inr (FloatOf s) else Inl ValueError)"

text \<open>
  The dictionary that \<open>fetch_omdb_data\<close> returns. \<open>default_record\<close> is the local \<open>default\<close>.
\<close>

record enrichment =
  imdb_id :: "ustr option"
  plot :: ustr
  director :: ustr
  box_office :: "ustr option"
  runtime :: "ustr option"
  imdb_rating :: "pyfloat option"

definition default_record :: enrichment where
  "default_record = \<lparr> imdb_id = None, plot = ascii ''Not Available'',
     director = ascii ''Unknown'', box_office = None, runtime = None, imdb_rating = None \<rparr>"

definition API_RETRIES :: nat where
  "API_RETRIES = 2"

text \<open>
  The service. A request is the pair of the parameters \<open>t\<close> and \<open>y\<close> (the API key and the
  media type are the same in every request). \<open>requests.get\<close>, \<open>raise_for_status\<close> and
  \<open>r.json()\<close> either raise a \<open>requests.RequestException\<close> (network failure, timeout,
  HTTP error status, body that is not JSON) or give the decoded body. The body is a JSON
  object whose fields are strings, as OMDb sends them; \<open>data.get(k)\<close> is \<open>None\<close> for a
  field that is missing or null. What the service answers may depend on the request and
  on every request made before it.
\<close>

type_synonym payload = "string \<Rightarrow> ustr option"

datatype outcome = RequestException | Reply payload

type_synonym request = "ustr \<times> int option"

type_synonym service = "request list \<Rightarrow> request \<Rightarrow> outcome"

definition authoritative :: "payload \<Rightarrow> bool" where
  "authoritative data \<longleftrightarrow> data ''Response'' = Some (ascii ''True'')"

text \<open>\<open>data.get(k) or d\<close>: \<open>None\<close> and the empty string are false.\<close>

definition or_default :: "ustr option \<Rightarrow> ustr \<Rightarrow> ustr" where
  "or_default v d = (case v of None \<Rightarrow> d | Some s \<Rightarrow> if s = [] then d else s)"

text \<open>
  The dictionary built on an authoritative answer. Its last entry is
  \<open>float(data.get('imdbRating')) if data.get('imdbRating') not in (None,'N/A') else None\<close>;
  a \<open>ValueError\<close> of \<open>float\<close> is not a \<open>RequestException\<close> and leaves the function.
\<close>

definition rating_of :: "ucd \<Rightarrow> ustr option \<Rightarrow> py_error + pyfloat option" where
  "rating_of U v =
     (case v of
        None \<Rightarrow> Inr None
      | Some s \<Rightarrow>
          if s = ascii ''N/A'' then Inr None
          else (case py_float U s of Inl e \<Rightarrow> Inl e | Inr f \<Rightarrow> Inr (Some f)))"

definition map_response :: "ucd \<Rightarrow> payload \<Rightarrow> py_error + enrichment" where
  "map_response U data =
     (case rating_of U (data ''imdbRating'') of
        Inl e \<Rightarrow> Inl e
      | Inr rating \<Rightarrow>
          Inr \<lparr> imdb_id = data ''imdbID'',
                plot = or_default (data ''Plot'') (ascii ''Not Available''),
                director = or_default (data ''Director'') (ascii ''Unknown''),
                box_office = data ''BoxOffice'',
                runtime = data ''Runtime'',
                imdb_rating = rating \<rparr>)"

text \<open>
  The three nested loops, innermost first. Each takes the list of the requests made so
  far and gives it back extended; its first result is \<open>Some\<close> when the function has
  returned (or raised) inside the loop and \<open>None\<close> when the loop has run out.

  \<open>attempts\<close> is \<open>for attempt in range(API_RETRIES)\<close> with the attempts that are left as
  its counter: an exception goes to the next attempt, an authoritative answer returns, any
  other answer leaves the loop by \<open>break\<close>.
\<close>

fun attempts ::
  "ucd \<Rightarrow> service \<Rightarrow> request \<Rightarrow> nat \<Rightarrow> request list
     \<Rightarrow> (py_error + enrichment) option \<times> request list" where
  "attempts U srv req 0 log = (None, log)"
| "attempts U srv req (Suc n) log =
     (case srv log req of
        RequestException \<Rightarrow> attempts U srv req n (log @ [req])
      | Reply data \<Rightarrow>
          if authoritative data then (Some (map_response U data), log @ [req])
          else (None, log @ [req]))"

text \<open>
  \<open>params_list\<close>: \<open>[{'t': candidate, 'y': int(year)}] if year else []\<close>, then the request
  without a year appended. \<open>if year\<close> is false for \<open>None\<close> and for the integer 0.
\<close>

definition truthy :: "int option \<Rightarrow> bool" where
  "truthy year \<longleftrightarrow> (case year of None \<Rightarrow> False | Some y \<Rightarrow> y \<noteq> 0)"

definition params_list :: "ustr \<Rightarrow> int option \<Rightarrow> request list" where
  "params_list candidate year =
     (if truthy year then [(candidate, year)] else []) @ [(candidate, None)]"

fun try_params ::
  "ucd \<Rightarrow> service \<Rightarrow> request list \<Rightarrow> request list
     \<Rightarrow> (py_error + enrichment) option \<times> request list" where
  "try_params U srv [] log = (None, log)"
| "try_params U srv (req # reqs) log =
     (case attempts U srv req API_RETRIES log of
        (Some r, log') \<Rightarrow> (Some r, log')
      | (None, log') \<Rightarrow> try_params U srv reqs log')"

fun try_candidates ::
  "ucd \<Rightarrow> service \<Rightarrow> ustr list \<Rightarrow> int option \<Rightarrow> request list
     \<Rightarrow> (py_error + enrichment) option \<times> request list" where
  "try_candidates U srv [] year log = (None, log)"
| "try_candidates U srv (candidate # rest) year log =
     (case try_params U srv (params_list candidate year) log of
        (Some r, log') \<Rightarrow> (Some r, log')
      | (None, log') \<Rightarrow> try_candidates U srv rest year log')"

text \<open>
  \<open>fetch_omdb_data\<close> gives its result, \<open>Inl\<close> for an exception that leaves it, and the
  requests it has made, in order.
\<close>

definition fetch_omdb_data ::
  "ucd \<Rightarrow> service \<Rightarrow> ustr list \<Rightarrow> int option \<Rightarrow> (py_error + enrichment) \<times> request list" where
  "fetch_omdb_data U srv title_candidates year =
     (case try_candidates U srv title_candidates year [] of
        (Some r, log) \<Rightarrow> (r, log)
      | (None, log) \<Rightarrow> (Inr default_record, log))"

section \<open>Auxiliary notions and example inputs\<close>

text \<open>
  \<open>fresh_auth srv log log' k data\<close>: the request number \<open>k\<close> of the run that extended the
  list \<open>log\<close> to \<open>log'\<close> was answered by the authoritative payload \<open>data\<close>. \<open>stops\<close>: such a
  request is the last one of the run, and the run returned the dictionary built from its
  answer.
\<close>

definition fresh_auth ::
  "service \<Rightarrow> request list \<Rightarrow> request list \<Rightarrow> nat \<Rightarrow> payload \<Rightarrow> bool" where
  "fresh_auth srv log log' k data \<longleftrightarrow>
     length log \<le> k \<and> k < length log' \<and> srv (take k log') (log' ! k) = Reply data
     \<and> authoritative data"

definition stops ::
  "ucd \<Rightarrow> service \<Rightarrow> request list \<Rightarrow> (py_error + enrichment) option \<Rightarrow> request list \<Rightarrow> bool"
  where
  "stops U srv log r log' \<longleftrightarrow>
     (\<exists>ext. log' = log @ ext) \<and>
     (\<forall>k data. fresh_auth srv log log' k data \<longrightarrow>
        Suc k = length log' \<and> r = Some (map_response U data))"

text \<open>Answers and services for the examples.\<close>

definition no_match :: payload where
  "no_match = [''Response'' \<mapsto> ascii ''False'', ''Error'' \<mapsto> ascii ''Movie not found!'']"

definition hit :: payload where
  "hit = [''Response'' \<mapsto> ascii ''True'', ''imdbID'' \<mapsto> ascii ''tt0114709'',
          ''Plot'' \<mapsto> [], ''imdbRating'' \<mapsto> ascii ''N/A'']"

definition bad_rating :: payload where
  "bad_rating = [''Response'' \<mapsto> ascii ''True'', ''imdbRating'' \<mapsto> ascii ''abc'']"

definition always_down :: service where
  "always_down = (\<lambda>log req. RequestException)"

definition always_no_match :: service where
  "always_no_match = (\<lambda>log req. Reply no_match)"

definition always_bad_rating :: service where
  "always_bad_rating = (\<lambda>log req. Reply bad_rating)"

definition knows_A :: service where
  "knows_A = (\<lambda>log req. if fst req = ascii ''A'' then Reply hit else Reply no_match)"

definition rates_A_badly :: service where
  "rates_A_badly = (\<lambda>log req. if fst req = ascii ''A'' then Reply bad_rating else Reply no_match)"

text \<open>
  A string in which no code point is a combining mark, and the title \<open>Am\<close>U+00E9\<open>lie\<close> with
  the precomposed letter U+00E9.
\<close>

definition has_no_marks :: "ucd \<Rightarrow> ustr \<Rightarrow> bool" where
  "has_no_marks U s \<longleftrightarrow> list_all (\<lambda>c. ccc U c = 0) s"

definition amelie_accent :: ustr where
  "amelie_accent = ascii ''Am'' @ [233] @ ascii ''lie''"

text \<open>
  A year block at the start of a string: an opening parenthesis, four decimal digits and a
  closing parenthesis; \<open>year_block\<close> gives what follows the block. \<open>block_at U (drop i t)\<close>
  says that a year block starts at position \<open>i\<close> of \<open>t\<close>; \<open>ends_with_year\<close> that the last
  six code points of the string are a year block.
\<close>

fun year_block :: "ucd \<Rightarrow> ustr \<Rightarrow> ustr option" where
  "year_block U (a # d1 # d2 # d3 # d4 # b # v) =
     (if a = 40 \<and> isdecimal U d1 \<and> isdecimal U d2 \<and> isdecimal U d3 \<and> isdecimal U d4 \<and> b = 41
      then Some v else None)"
| "year_block U _ = None"

definition block_at :: "ucd \<Rightarrow> ustr \<Rightarrow> bool" where
  "block_at U s \<longleftrightarrow> year_block U s \<noteq> None"

definition ends_with_year :: "ucd \<Rightarrow> ustr \<Rightarrow> bool" where
  "ends_with_year U t \<longleftrightarrow> 6 \<le> length t \<and> year_block U (drop (length t - 6) t) = Some []"

text \<open>
  A fact of the Unicode tables: no decimal digit is a whitespace character, a sign or the
  underscore.
\<close>

definition digits_sane :: "ucd \<Rightarrow> bool" where
  "digits_sane U \<longleftrightarrow>
     (\<forall>c. isdecimal U c \<longrightarrow> \<not> isspace c \<and> c \<noteq> 43 \<and> c \<noteq> 45 \<and> c \<noteq> 95)"






section \<open>Evaluation of patterns on concrete strings\<close>

lemma ascii_Nil: "ascii [] = []"
  by (simp add: ascii_def)
lemma ascii_Cons: "ascii (c # cs) = of_char c # ascii cs"
  by (simp add: ascii_def)

lemma ms_Cls_Nil: "ms (Cls p) (i, [], g) = []"
  by simp
lemma ms_Cls_Cons: "ms (Cls p) (i, c # cs, g) = (if p c then [(Suc i, cs, g)] else [])"
  by simp
lemma ms_lit_Nil: "ms (lit c) (i, [], g) = []"
  by (simp add: lit_def)
lemma ms_lit_Cons: "ms (lit c) (i, x # xs, g) = (if x = c then [(Suc i, xs, g)] else [])"
  by (simp add: lit_def)
lemma ms_sp_Nil: "ms sp (i, [], g) = []"
  by (simp add: sp_def)
lemma ms_sp_Cons: "ms sp (i, x # xs, g) = (if isspace x then [(Suc i, xs, g)] else [])"
  by (simp add: sp_def)
lemma ms_dg_Nil: "ms (dg U) (i, [], g) = []"
  by (simp add: dg_def)
lemma ms_dg_Cons: "ms (dg U) (i, x # xs, g) = (if isdecimal U x then [(Suc i, xs, g)] else [])"
  by (simp add: dg_def)
lemma ms_dot_Nil: "ms dot (i, [], g) = []"
  by (simp add: dot_def)
lemma ms_dot_Cons: "ms dot (i, x # xs, g) = (if x \<noteq> 10 then [(Suc i, xs, g)] else [])"
  by (simp add: dot_def)
lemma ms_alit_Nil: "ms (alit c) (i, [], g) = []"
  by (simp add: alit_def)
lemma ms_alit_Cons: "ms (alit c) (i, x # xs, g) = (if x = c \<or> x + 32 = c then [(Suc i, xs, g)] else [])"
  by (simp add: alit_def)
lemma ms_seqs_Nil: "ms (seqs []) st = [st]"
  by (simp add: seqs_def)
lemma ms_seqs_Cons: "ms (seqs (r # rs)) st = concat (map (ms (seqs rs)) (ms r st))"
  by (simp add: seqs_def)
lemma ms_opt: "ms (opt r) st = ms r st @ [st]"
  by (simp add: opt_def)
lemma ms_Seq: "ms (Seq a b) st = concat (map (ms b) (ms a st))"
  by simp
lemma ms_Alt: "ms (Alt a b) st = ms a st @ ms b st"
  by simp
lemma isdecimal_sample: "isdecimal ucd_sample c \<longleftrightarrow> 48 \<le> c \<and> c \<le> 57"
  by (simp add: isdecimal_def ucd_sample_def)

lemma ms_Star_Nil: "ms (Star a) (i, [], g) = [(i, [], g)]"
  by simp
lemma ms_Star_Cons: "ms (Star a) (i, c # cs, g) =
     concat (map (\<lambda>(j, t, h). if length t < Suc (length cs) then ms (Star a) (j, t, h) else [])
                 (ms a (i, c # cs, g))) @ [(i, c # cs, g)]"
  by simp

lemmas ev = ms_Cls_Nil ms_Cls_Cons ms_lit_Nil ms_lit_Cons ms_sp_Nil ms_sp_Cons ms_dg_Nil ms_dg_Cons
  ms_dot_Nil ms_dot_Cons ms_alit_Nil ms_alit_Cons ms_seqs_Nil ms_seqs_Cons ms_opt ms_Seq ms_Alt
  isdecimal_sample ms_Star_Nil ms_Star_Cons alts.simps

lemma number_strip_abc: "number_strip [97, 98, 99] = [97, 98, 99]"
  by (simp add: number_strip_def number_space_def strip_by_def isspace_def)

lemma float_re_abc: "ms (float_re ucd_sample) (0, [97, 98, 99], Map.empty) = []"
  by (simp add: float_re_def Let_def digitpart_def sign_re_def astr_def ascii_Nil ascii_Cons ev)

section \<open>Properties of the lookup\<close>

lemma attempts_extends:
  "\<exists>k\<le>n. snd (attempts U srv req n log) = log @ replicate k req"
proof (induction n arbitrary: log)
  case 0
  then show ?case by simp
next
  case (Suc n)
  show ?case
  proof (cases "srv log req")
    case RequestException
    from Suc.IH [of "log @ [req]"] obtain k where
      k: "k \<le> n" "snd (attempts U srv req n (log @ [req])) = (log @ [req]) @ replicate k req"
      by blast
    have "snd (attempts U srv req (Suc n) log) = log @ replicate (Suc k) req"
      using k RequestException by simp
    with k(1) show ?thesis by (metis Suc_le_mono)
  next
    case (Reply data)
    have "snd (attempts U srv req (Suc n) log) = log @ replicate 1 req"
      using Reply by simp
    then show ?thesis by (metis One_nat_def Suc_le_mono le0)
  qed
qed

lemma attempts_all_fail:
  "(\<And>log. srv log req = RequestException) \<Longrightarrow>
   attempts U srv req n log = (None, log @ replicate n req)"
  by (induction n arbitrary: log) (simp_all add: replicate_app_Cons_same)

lemma try_params_all_fail:
  "(\<And>log req. srv log req = RequestException) \<Longrightarrow>
   try_params U srv reqs log = (None, log @ concat (map (replicate API_RETRIES) reqs))"
  by (induction reqs arbitrary: log) (simp_all add: attempts_all_fail)

lemma try_candidates_all_fail:
  "(\<And>log req. srv log req = RequestException) \<Longrightarrow>
   try_candidates U srv cands year log =
     (None, log @ concat (map (\<lambda>c. concat (map (replicate API_RETRIES) (params_list c year))) cands))"
  by (induction cands arbitrary: log) (simp_all add: try_params_all_fail)

lemma length_params_list: "length (params_list c year) \<le> 2"
  by (simp add: params_list_def)

lemma length_concat_bound:
  "(\<And>x. x \<in> set xs \<Longrightarrow> length (f x) \<le> b) \<Longrightarrow> length (concat (map f xs)) \<le> length xs * b"
  by (induction xs) (auto simp: add_mono)

lemma length_concat_exact:
  "(\<And>x. x \<in> set xs \<Longrightarrow> length (f x) = b) \<Longrightarrow> length (concat (map f xs)) = length xs * b"
  by (induction xs) auto

text \<open>
  Claim C3. One pair of candidate and year variant gets at most \<open>API_RETRIES = 2\<close> requests:
  the attempt loop adds at most two copies of the request to the list of requests made,
  and exactly two when every attempt for the pair fails with a \<open>RequestException\<close>. When
  every attempt of the whole run fails so, the run ends with the default record, it has
  made each request of each candidate twice and nothing else, and so for \<open>N\<close> candidates
  at most \<open>N * 2 * 2\<close> requests, whatever the year is.
\<close>

theorem retry_budget:
  "(\<exists>k\<le>2. snd (attempts U srv req API_RETRIES log) = log @ replicate k req)
   \<and> ((\<forall>l. srv l req = RequestException) \<longrightarrow>
        attempts U srv req API_RETRIES log = (None, log @ [req, req]))
   \<and> ((\<forall>l r. srv l r = RequestException) \<longrightarrow>
        fst (fetch_omdb_data U srv cands year) = Inr default_record
        \<and> snd (fetch_omdb_data U srv cands year) =
            concat (map (\<lambda>c. concat (map (\<lambda>r. [r, r]) (params_list c year))) cands)
        \<and> length (snd (fetch_omdb_data U srv cands year)) \<le> length cands * 2 * 2)"
proof (intro conjI impI)
  show "\<exists>k\<le>2. snd (attempts U srv req API_RETRIES log) = log @ replicate k req"
    using attempts_extends [of API_RETRIES U srv req log] by (simp add: API_RETRIES_def)
next
  assume "\<forall>l. srv l req = RequestException"
  then show "attempts U srv req API_RETRIES log = (None, log @ [req, req])"
    using attempts_all_fail [of srv req U API_RETRIES log]
    by (simp add: API_RETRIES_def numeral_2_eq_2)
next
  assume a: "\<forall>l r. srv l r = RequestException"
  have rep: "replicate API_RETRIES = (\<lambda>r::request. [r, r])"
    by (rule ext) (simp add: API_RETRIES_def numeral_2_eq_2)
  have tc: "try_candidates U srv cands year [] =
      (None, concat (map (\<lambda>c. concat (map (\<lambda>r. [r, r]) (params_list c year))) cands))"
    using try_candidates_all_fail [of srv U cands year "[]"] a by (simp add: rep)
  show "fst (fetch_omdb_data U srv cands year) = Inr default_record"
    by (simp add: fetch_omdb_data_def tc)
  show calls: "snd (fetch_omdb_data U srv cands year) =
      concat (map (\<lambda>c. concat (map (\<lambda>r. [r, r]) (params_list c year))) cands)"
    by (simp add: fetch_omdb_data_def tc)
  have "length (concat (map (\<lambda>r. [r, r]) (params_list c year))) \<le> 4" for c
    using length_concat_exact [of "params_list c year" "\<lambda>r. [r, r]" 2] length_params_list [of c year]
    by simp
  then have "length (concat (map (\<lambda>c. concat (map (\<lambda>r. [r, r]) (params_list c year))) cands))
      \<le> length cands * 4"
    by (intro length_concat_bound) simp
  then show "length (snd (fetch_omdb_data U srv cands year)) \<le> length cands * 2 * 2"
    by (simp add: calls)
qed

text \<open>
  Claim C4. With an empty candidate list, for any year and any service, the result is the
  default record (no identifier, plot \<open>Not Available\<close>, director \<open>Unknown\<close>, no box office,
  runtime or rating) and no request is made.
\<close>

theorem empty_candidates:
  "fetch_omdb_data U srv [] year = (Inr default_record, [])
   \<and> imdb_id default_record = None
   \<and> plot default_record = ascii ''Not Available''
   \<and> director default_record = ascii ''Unknown''
   \<and> box_office default_record = None
   \<and> runtime default_record = None
   \<and> imdb_rating default_record = None"
  by (simp add: fetch_omdb_data_def default_record_def)

lemma stops_refl: "stops U srv log None log"
  by (simp add: stops_def fresh_auth_def)

lemma stops_trans:
  assumes "stops U srv log None log'" and "stops U srv log' r log''"
  shows "stops U srv log r log''"
proof -
  from assms obtain e1 e2 where e: "log' = log @ e1" "log'' = log' @ e2"
    by (auto simp: stops_def)
  have "Suc k = length log'' \<and> r = Some (map_response U data)"
    if f: "fresh_auth srv log log'' k data" for k data
  proof (cases "k < length log'")
    case True
    then have "take k log'' = take k log'" "log'' ! k = log' ! k"
      unfolding e(2) by (simp_all add: nth_append)
    with f True have "fresh_auth srv log log' k data"
      by (simp add: fresh_auth_def)
    with assms(1) show ?thesis by (simp add: stops_def)
  next
    case False
    with f have "fresh_auth srv log' log'' k data"
      by (simp add: fresh_auth_def)
    with assms(2) show ?thesis by (simp add: stops_def)
  qed
  then show ?thesis using e by (simp add: stops_def)
qed

lemma attempts_stops:
  "stops U srv log (fst (attempts U srv req n log)) (snd (attempts U srv req n log))"
proof (induction n arbitrary: log)
  case 0
  show ?case by (simp add: stops_refl)
next
  case (Suc n)
  show ?case
  proof (cases "srv log req")
    case RequestException
    have one: "stops U srv log None (log @ [req])"
      using RequestException by (auto simp: stops_def fresh_auth_def less_Suc_eq_le)
    show ?thesis
      using stops_trans [OF one Suc.IH [of "log @ [req]"]] RequestException by simp
  next
    case (Reply data)
    then show ?thesis
      by (auto simp: stops_def fresh_auth_def less_Suc_eq_le)
  qed
qed

lemma try_params_stops:
  "stops U srv log (fst (try_params U srv reqs log)) (snd (try_params U srv reqs log))"
proof (induction reqs arbitrary: log)
  case Nil
  show ?case by (simp add: stops_refl)
next
  case (Cons req reqs)
  obtain r log' where a: "attempts U srv req API_RETRIES log = (r, log')"
    by (cases "attempts U srv req API_RETRIES log")
  have s: "stops U srv log r log'"
    using attempts_stops [of U srv log req API_RETRIES] a by simp
  show ?case
  proof (cases r)
    case None
    with a s Cons.IH [of log'] show ?thesis
      by (auto intro: stops_trans)
  next
    case (Some x)
    with a s show ?thesis by simp
  qed
qed

lemma try_candidates_stops:
  "stops U srv log (fst (try_candidates U srv cands year log))
     (snd (try_candidates U srv cands year log))"
proof (induction cands arbitrary: log)
  case Nil
  show ?case by (simp add: stops_refl)
next
  case (Cons c cands)
  obtain r log' where a: "try_params U srv (params_list c year) log = (r, log')"
    by (cases "try_params U srv (params_list c year) log")
  have s: "stops U srv log r log'"
    using try_params_stops [of U srv log "params_list c year"] a by simp
  show ?case
  proof (cases r)
    case None
    with a s Cons.IH [of log'] show ?thesis
      by (auto intro: stops_trans)
  next
    case (Some x)
    with a s show ?thesis by simp
  qed
qed

text \<open>
  What holds of the lookup order for every candidate list, year and service: if
  \<open>fetch_omdb_data\<close> ends with the requests \<open>calls\<close> and the request number \<open>k\<close> (answered
  by the service that had seen the \<open>k\<close> requests before it) got an authoritative answer,
  then that request is the last one made, and the outcome of the function is what
  \<open>map_response\<close> makes of that answer: the dictionary, or the \<open>ValueError\<close> of \<open>float\<close>.
\<close>

lemma authoritative_is_last:
  assumes "fetch_omdb_data U srv cands year = (res, calls)"
    and "k < length calls"
    and "srv (take k calls) (calls ! k) = Reply data"
    and "authoritative data"
  shows "Suc k = length calls \<and> res = map_response U data"
proof -
  obtain r log where t: "try_candidates U srv cands year [] = (r, log)"
    by (cases "try_candidates U srv cands year []")
  have calls: "calls = log" and res: "res = (case r of Some x \<Rightarrow> x | None \<Rightarrow> Inr default_record)"
    using assms(1) t by (auto simp: fetch_omdb_data_def split: option.splits)
  have "stops U srv [] r log"
    using try_candidates_stops [of U srv "[]" cands year] t by simp
  moreover have "fresh_auth srv [] log k data"
    using assms(2-4) calls by (simp add: fresh_auth_def)
  ultimately have "Suc k = length log \<and> r = Some (map_response U data)"
    by (simp add: stops_def)
  then show ?thesis
    using calls res by simp
qed

lemma no_match_not_authoritative: "\<not> authoritative no_match"
  by (simp add: authoritative_def no_match_def ascii_def)

lemma hit_authoritative: "authoritative hit"
  by (simp add: authoritative_def hit_def)

lemma bad_rating_authoritative: "authoritative bad_rating"
  by (simp add: authoritative_def bad_rating_def)

lemma attempts_no_match:
  "srv log req = Reply data \<Longrightarrow> \<not> authoritative data \<Longrightarrow>
   attempts U srv req API_RETRIES log = (None, log @ [req])"
  by (simp add: API_RETRIES_def numeral_2_eq_2)

lemma try_params_never_match:
  "(\<And>l r. \<exists>d. srv l r = Reply d \<and> \<not> authoritative d) \<Longrightarrow>
   try_params U srv reqs log = (None, log @ reqs)"
proof (induction reqs arbitrary: log)
  case Nil
  show ?case by simp
next
  case (Cons req reqs)
  from Cons.prems [of log req] obtain d where "srv log req = Reply d" "\<not> authoritative d"
    by blast
  then have "attempts U srv req API_RETRIES log = (None, log @ [req])"
    by (rule attempts_no_match)
  with Cons.IH [OF Cons.prems, of "log @ [req]"] show ?case by simp
qed

lemma try_candidates_never_match:
  "(\<And>l r. \<exists>d. srv l r = Reply d \<and> \<not> authoritative d) \<Longrightarrow>
   try_candidates U srv cands year log =
     (None, log @ concat (map (\<lambda>c. params_list c year) cands))"
  by (induction cands arbitrary: log) (simp_all add: try_params_never_match)

text \<open>
  Claim C8, amended. With a release year that is present and not 0, the requests of a
  candidate are the one with the year and then the one without it. An answer that is not
  authoritative ends the attempt loop after this one request, and the loop over the year
  variants goes on with the next variant. When no answer is authoritative, the run makes,
  for each candidate in order, the request with the year and then the request without
  it, each once, and ends with the default record.
\<close>

theorem year_variant_order:
  "(y \<noteq> 0 \<longrightarrow> params_list c (Some y) = [(c, Some y), (c, None)])
   \<and> (srv log req = Reply data \<and> \<not> authoritative data \<longrightarrow>
        attempts U srv req API_RETRIES log = (None, log @ [req])
        \<and> try_params U srv (req # reqs) log = try_params U srv reqs (log @ [req]))
   \<and> (y \<noteq> 0 \<and> (\<forall>l r. \<exists>d. srv l r = Reply d \<and> \<not> authoritative d) \<longrightarrow>
        fetch_omdb_data U srv cands (Some y) =
          (Inr default_record, concat (map (\<lambda>c. [(c, Some y), (c, None)]) cands)))"
proof (intro conjI impI)
  assume "y \<noteq> 0"
  then show "params_list c (Some y) = [(c, Some y), (c, None)]"
    by (simp add: params_list_def truthy_def)
next
  assume a: "srv log req = Reply data \<and> \<not> authoritative data"
  then show b: "attempts U srv req API_RETRIES log = (None, log @ [req])"
    by (simp add: attempts_no_match)
  show "try_params U srv (req # reqs) log = try_params U srv reqs (log @ [req])"
    by (simp add: b)
next
  assume a: "y \<noteq> 0 \<and> (\<forall>l r. \<exists>d. srv l r = Reply d \<and> \<not> authoritative d)"
  then have p: "params_list c (Some y) = [(c, Some y), (c, None)]" for c
    by (simp add: params_list_def truthy_def)
  from a have nm: "\<exists>d. srv l r = Reply d \<and> \<not> authoritative d" for l r
    by blast
  have "try_candidates U srv cands (Some y) [] =
      (None, concat (map (\<lambda>c. params_list c (Some y)) cands))"
    using try_candidates_never_match [of srv U cands "Some y" "[]", OF nm] by simp
  then show "fetch_omdb_data U srv cands (Some y) =
      (Inr default_record, concat (map (\<lambda>c. [(c, Some y), (c, None)]) cands))"
    by (simp add: fetch_omdb_data_def p)
qed

theorem year_variant_order_witness:
  "params_list (ascii ''A'') (Some 1995) = [(ascii ''A'', Some 1995), (ascii ''A'', None)]
   \<and> try_params ucd_sample always_no_match [(ascii ''A'', Some 1995), (ascii ''A'', None)] []
       = try_params ucd_sample always_no_match [(ascii ''A'', None)] [(ascii ''A'', Some 1995)]
   \<and> fetch_omdb_data ucd_sample always_no_match [ascii ''A'', ascii ''B''] (Some 1995) =
       (Inr default_record,
        [(ascii ''A'', Some 1995), (ascii ''A'', None), (ascii ''B'', Some 1995), (ascii ''B'', None)])"
  using year_variant_order [of 1995 "ascii ''A''" always_no_match "[]" "(ascii ''A'', Some 1995)"
      no_match ucd_sample "[(ascii ''A'', None)]" "[ascii ''A'', ascii ''B'']"]
    no_match_not_authoritative
  by (simp add: always_no_match_def)

text \<open>
  Claim C8 as stated fails for the year 0, which \<open>if year\<close> takes for no year (the title
  \<open>A (0000)\<close> gives it): the only request is the one without a year.
\<close>

theorem year_zero_counterexample:
  "fetch_omdb_data ucd_sample always_no_match [ascii ''A''] (Some 0) =
     (Inr default_record, [(ascii ''A'', None)])"
  using no_match_not_authoritative
  by (simp add: fetch_omdb_data_def params_list_def truthy_def always_no_match_def
      API_RETRIES_def numeral_2_eq_2)

theorem retry_budget_witness:
  "attempts ucd_sample always_down (ascii ''A'', None) API_RETRIES [] =
     (None, [(ascii ''A'', None), (ascii ''A'', None)])
   \<and> snd (fetch_omdb_data ucd_sample always_down [ascii ''A''] (Some 1995)) =
       [(ascii ''A'', Some 1995), (ascii ''A'', Some 1995), (ascii ''A'', None), (ascii ''A'', None)]
   \<and> length (snd (fetch_omdb_data ucd_sample always_down [ascii ''A''] (Some 1995))) \<le> 1 * 2 * 2"
  using retry_budget [of ucd_sample always_down "(ascii ''A'', None)" "[]" "[ascii ''A'']" "Some 1995"]
  by (simp add: always_down_def params_list_def truthy_def)

lemma py_float_abc: "py_float ucd_sample (ascii ''abc'') = Inl ValueError"
  by (simp add: py_float_def fullmatch_def ascii_Nil ascii_Cons number_strip_abc float_re_abc)

text \<open>
  Claim C1 fails on the code. The service answers the request for the candidate \<open>A\<close> with
  an authoritative payload whose \<open>imdbRating\<close> is the text \<open>abc\<close>. \<open>float\<close> raises
  \<open>ValueError\<close>, which the \<open>except requests.RequestException\<close> clause does not catch: the
  exception leaves \<open>fetch_omdb_data\<close> after the first request.
\<close>

theorem rating_error_escapes:
  "fetch_omdb_data ucd_sample always_bad_rating [ascii ''A''] None =
     (Inl ValueError, [(ascii ''A'', None)])"
proof -
  have "ascii ''abc'' \<noteq> ascii ''N/A''" by (simp add: ascii_def)
  then have "map_response ucd_sample bad_rating = Inl ValueError"
    by (simp add: map_response_def rating_of_def bad_rating_def py_float_abc)
  then show ?thesis
    using bad_rating_authoritative
    by (simp add: fetch_omdb_data_def params_list_def truthy_def always_bad_rating_def
        API_RETRIES_def numeral_2_eq_2)
qed

text \<open>
  A run in which the answer can be mapped: the service answers the first request with an
  authoritative payload whose rating is \<open>N/A\<close>, and the dictionary comes back after that
  one request.
\<close>

lemma knows_A_run:
  "fetch_omdb_data ucd_sample knows_A [ascii ''A'', ascii ''B''] (Some 1995) =
     (Inr \<lparr> imdb_id = Some (ascii ''tt0114709''), plot = ascii ''Not Available'',
             director = ascii ''Unknown'', box_office = None, runtime = None,
             imdb_rating = None \<rparr>,
      [(ascii ''A'', Some 1995)])"
proof -
  have "map_response ucd_sample hit =
      Inr \<lparr> imdb_id = Some (ascii ''tt0114709''), plot = ascii ''Not Available'',
             director = ascii ''Unknown'', box_office = None, runtime = None,
             imdb_rating = None \<rparr>"
    by (simp add: map_response_def rating_of_def hit_def or_default_def)
  then show ?thesis
    using hit_authoritative
    by (simp add: fetch_omdb_data_def params_list_def truthy_def knows_A_def
        API_RETRIES_def numeral_2_eq_2)
qed

text \<open>
  Claim C2 fails on the code. The candidates are \<open>A\<close> and \<open>B\<close>, the year is 1995, and the
  service answers every request for \<open>A\<close> with an authoritative payload whose \<open>imdbRating\<close>
  is the text \<open>abc\<close>. The first request, for \<open>A\<close> with the year, gets this authoritative
  answer. No later request is made, but the answer is not mapped to a dictionary and
  returned: building the dictionary evaluates \<open>float\<close> on \<open>abc\<close>, and its \<open>ValueError\<close>
  leaves \<open>fetch_omdb_data\<close>.
\<close>

theorem authoritative_answer_not_returned:
  "rates_A_badly [] (ascii ''A'', Some 1995) = Reply bad_rating
   \<and> authoritative bad_rating
   \<and> fetch_omdb_data ucd_sample rates_A_badly [ascii ''A'', ascii ''B''] (Some 1995) =
       (Inl ValueError, [(ascii ''A'', Some 1995)])"
proof -
  have "ascii ''abc'' \<noteq> ascii ''N/A''" by (simp add: ascii_def)
  then have "map_response ucd_sample bad_rating = Inl ValueError"
    by (simp add: map_response_def rating_of_def bad_rating_def py_float_abc)
  then show ?thesis
    using bad_rating_authoritative
    by (simp add: fetch_omdb_data_def params_list_def truthy_def rates_A_badly_def
        API_RETRIES_def numeral_2_eq_2)
qed

section \<open>More evaluation rules\<close>

lemma ms_Lazy_Nil: "ms (Lazy a) (i, [], g) = [(i, [], g)]"
  by simp

lemma ms_Lazy_Cons: "ms (Lazy a) (i, c # cs, g) =
     (i, c # cs, g) # concat (map (\<lambda>(j, t, h). if length t < Suc (length cs) then ms (Lazy a) (j, t, h) else [])
                 (ms a (i, c # cs, g)))"
  by simp

lemma ms_ilit_Nil: "ms (ilit U c) (i, [], g) = []"
  by (simp add: ilit_def lit_def)

lemma ms_ilit_Cons: "ms (ilit U c) (i, x # xs, g) =
    (if (if iscased U c then lower U x \<in> set (lower U c # fixes_tab (lower U c)) else x = c)
     then [(Suc i, xs, g)] else [])"
  by (simp add: ilit_def lit_def)

lemma ms_istr_Nil: "ms (istr U []) st = [st]"
  by (simp add: istr_def seqs_def)

lemma ms_istr_Cons: "ms (istr U (c # cs)) st = concat (map (ms (istr U cs)) (ms (ilit U c) st))"
  by (simp add: istr_def seqs_def)

lemma ms_plus: "ms (plus r) st = concat (map (ms (Star r)) (ms r st))"
  by (simp add: plus_def)

lemma ms_times4: "ms (times 4 r) st = ms (seqs [r, r, r, r]) st"
  by (simp add: times_def numeral_eq_Suc)

lemma lower_sample: "lower ucd_sample c =
   (if 65 \<le> c \<and> c \<le> 90 then c + 32 else if c = 201 then 233 else if c = 211 then 243 else c)"
  by (simp add: ucd_sample_def)

lemma upper_sample: "upper ucd_sample c =
   (if 97 \<le> c \<and> c \<le> 122 then c - 32 else if c = 233 then 201 else if c = 243 then 211 else c)"
  by (simp add: ucd_sample_def)

lemma decomp_sample: "decomp ucd_sample c =
   (if c = 178 then [50] else if c = 180 then [32, 769] else if c = 201 then [69, 769]
    else if c = 211 then [79, 769] else if c = 233 then [101, 769]
    else if c = 243 then [111, 769] else [c])"
  by (simp add: ucd_sample_def)

lemma ccc_sample: "ccc ucd_sample c = (if c = 769 then 230 else 0)"
  by (simp add: ucd_sample_def)

lemma decimal_sample: "decimal ucd_sample c = (if 48 \<le> c \<and> c \<le> 57 then Some (c - 48) else None)"
  by (simp add: ucd_sample_def)

lemmas ev2 = ev ms_Lazy_Nil ms_Lazy_Cons ms_ilit_Nil ms_ilit_Cons ms_istr_Nil ms_istr_Cons ms_plus
  ms_times4 lower_sample upper_sample iscased_def fixes_tab_def isspace_def
  ascii_Nil ascii_Cons re_sub_def re_search_def re_match_def group_def fmt_def
  strip_def strip_by_def strip_chars_def quote_chars_def

section \<open>The number of candidates\<close>

lemma length_add_candidate: "length (add_candidate cs t) \<le> Suc (length cs)"
  by (simp add: add_candidate_def split: option.splits)

lemma length_foldl_add_candidate:
  "length (foldl add_candidate cs ts) \<le> length cs + length ts"
proof (induction ts arbitrary: cs)
  case Nil
  show ?case by simp
next
  case (Cons t ts)
  have "length (foldl add_candidate (add_candidate cs t) ts) \<le> length (add_candidate cs t) + length ts"
    by (rule Cons.IH)
  also have "\<dots> \<le> Suc (length cs) + length ts"
    using length_add_candidate [of cs t] by simp
  finally show ?case by simp
qed

lemma length_add_translit: "length (add_translit U cs c) \<le> Suc (length cs)"
  by (simp add: add_translit_def split: pyval.splits)

lemma length_foldl_add_translit:
  "length (foldl (add_translit U) cs xs) \<le> length cs + length xs"
proof (induction xs arbitrary: cs)
  case Nil
  show ?case by simp
next
  case (Cons x xs)
  have "length (foldl (add_translit U) (add_translit U cs x) xs)
      \<le> length (add_translit U cs x) + length xs"
    by (rule Cons.IH)
  also have "\<dots> \<le> Suc (length cs) + length xs"
    using length_add_translit [of U cs x] by simp
  finally show ?case by simp
qed

text \<open>
  Claim C10. For every raw title the list returned by \<open>generate_title_candidates\<close> has at
  most 8 entries: the first loop appends at most one string for each of the four
  transform outputs, the second loop at most one diacritic-stripped variant for each
  string the first loop left, and the final comprehension adds none.
\<close>

theorem at_most_eight_candidates:
  "length (generate_title_candidates U original_title) \<le> 8"
proof -
  have four: "length (foldl add_candidate [] [a, b, c, d]) \<le> 4" for a b c d
    using length_foldl_add_candidate [of "[]" "[a, b, c, d]"] by simp
  have eight: "length (foldl (add_translit U) cs cs) \<le> 8" if "length cs \<le> 4" for cs
    using length_foldl_add_translit [of U cs cs] that by simp
  have "length (filter (\<lambda>c. c \<noteq> []) (foldl (add_translit U) cs cs)) \<le> 8" if "length cs \<le> 4" for cs
    using eight [OF that] length_filter_le [of "\<lambda>c. c \<noteq> []" "foldl (add_translit U) cs cs"]
    by linarith
  with four show ?thesis
    by (simp add: generate_title_candidates_def Let_def)
qed

section \<open>Diacritics: what the combining-mark filter leaves\<close>

lemma sort_key_const:
  "(\<And>x. x \<in> set xs \<Longrightarrow> f x = (k::nat)) \<Longrightarrow> sort_key f xs = xs"
proof (induction xs)
  case Nil
  show ?case by simp
next
  case (Cons x xs)
  then have "sort_key f xs = xs" by simp
  moreover have "insort_key f x xs = x # xs"
    using Cons.prems by (cases xs) simp_all
  ultimately show ?case by simp
qed

lemma sort_key_starters:
  "sort_key (ccc U) (filter (\<lambda>c. ccc U c = 0) run) = filter (\<lambda>c. ccc U c = 0) run"
  by (rule sort_key_const [where k = 0]) simp

lemma filter_reorder:
  "filter (\<lambda>c. ccc U c = 0) (reorder U run cs) =
   filter (\<lambda>c. ccc U c = 0) run @ filter (\<lambda>c. ccc U c = 0) cs"
  by (induction cs arbitrary: run) (simp_all add: filter_sort sort_key_starters)

lemma remove_diacritics_Str:
  "remove_diacritics U (Str s) = Str (filter (\<lambda>c. ccc U c = 0) (concat (map (decomp U) s)))"
  by (simp add: nfkd_def filter_reorder)

lemma concat_decomp_id:
  "(\<And>c. c \<in> set s \<Longrightarrow> decomp U c = [c]) \<Longrightarrow> concat (map (decomp U) s) = s"
  by (induction s) simp_all

lemma nfkd_id:
  assumes "\<And>c. c \<in> set s \<Longrightarrow> decomp U c = [c]" and "\<And>c. c \<in> set s \<Longrightarrow> ccc U c = 0"
  shows "nfkd U s = s"
proof -
  have "reorder U [] s = s" using assms(2)
    by (induction s) simp_all
  then show ?thesis using concat_decomp_id [OF assms(1)] by (simp add: nfkd_def)
qed

lemma remove_diacritics_fixed:
  assumes "\<And>c. c \<in> set s \<Longrightarrow> decomp U c = [c]" and "\<And>c. c \<in> set s \<Longrightarrow> ccc U c = 0"
  shows "remove_diacritics U (Str s) = Str s"
proof -
  have "filter (\<lambda>c. ccc U c = 0) s = s"
    using assms(2) by (simp add: filter_id_conv)
  then show ?thesis
    unfolding remove_diacritics_Str using concat_decomp_id [of s U, OF assms(1)] by simp
qed

lemma remove_diacritics_idem:
  assumes full: "\<And>c d. d \<in> set (decomp U c) \<Longrightarrow> decomp U d = [d]"
  shows "remove_diacritics U (remove_diacritics U v) = remove_diacritics U v"
proof (cases v)
  case (Str s)
  let ?xs = "filter (\<lambda>c. ccc U c = 0) (concat (map (decomp U) s))"
  have "remove_diacritics U (Str ?xs) = Str ?xs"
  proof (rule remove_diacritics_fixed)
    fix d assume "d \<in> set ?xs"
    then show "ccc U d = 0" by simp
    from \<open>d \<in> set ?xs\<close> obtain c where "d \<in> set (decomp U c)" by auto
    then show "decomp U d = [d]" by (rule full)
  qed
  then show ?thesis using Str by (simp only: remove_diacritics_Str)
qed simp_all

lemma sample_full: "d \<in> set (decomp ucd_sample c) \<Longrightarrow> decomp ucd_sample d = [d]"
  by (auto simp: decomp_sample split: if_splits)

section \<open>The candidate generator on two titles\<close>

lemma tidy_1: "tidy_whitespace [180] = [180]"
  by (simp add: tidy_whitespace_def ev2)
lemma tidy_2: "tidy_whitespace [32] = []"
  by (simp add: tidy_whitespace_def ev2)
lemma tidy_3: "tidy_whitespace [65, 180, 32, 40, 65, 41] = [65, 180, 32, 40, 65, 41]"
  by (simp add: tidy_whitespace_def ev2)
lemma tidy_4: "tidy_whitespace [65, 180] = [65, 180]"
  by (simp add: tidy_whitespace_def ev2)
lemma tidy_5: "tidy_whitespace [65] = [65]"
  by (simp add: tidy_whitespace_def ev2)
lemma tidy_6: "tidy_whitespace [65, 32, 32, 40, 65, 41] = [65, 32, 40, 65, 41]"
  by (simp add: tidy_whitespace_def ev2)
lemma tidy_7: "tidy_whitespace [65, 32] = [65]"
  by (simp add: tidy_whitespace_def ev2)
lemma tidy_8: "tidy_whitespace [65, 180, 32] = [65, 180]"
  by (simp add: tidy_whitespace_def ev2)

lemma base_1: "base_clean ucd_sample [180] = [180]"
  by (simp add: base_clean_def year_tail_def tidy_1 ev2)
lemma base_2: "base_clean ucd_sample [65, 180, 32, 40, 65, 41] = [65, 180, 32, 40, 65, 41]"
  by (simp add: base_clean_def year_tail_def tidy_3 ev2)

lemma moved_1: "move_trailing_article ucd_sample [180] = [180]"
  by (simp add: move_trailing_article_def article_re_def ev2)
lemma moved_2: "move_trailing_article ucd_sample [65, 180, 32, 40, 65, 41] = [65, 180, 32, 40, 65, 41]"
  by (simp add: move_trailing_article_def article_re_def ev2)

lemma paren_1: "remove_parenthetical_alternates ucd_sample [180] = [180]"
  by (simp add: remove_parenthetical_alternates_def marked_paren_re_def any_paren_re_def markers_def tidy_1 ev2)

lemma p4: "re_sub (marked_paren_re ucd_sample) [32] [65, 180, 32, 40, 65, 41] = [65, 180, 32, 40, 65, 41]"
  by (simp add: marked_paren_re_def markers_def ev2)
lemma p5: "re_sub any_paren_re [32] [65, 180, 32, 40, 65, 41] = [65, 180, 32]"
  by (simp add: any_paren_re_def ev2)
lemma paren_2: "remove_parenthetical_alternates ucd_sample [65, 180, 32, 40, 65, 41] = [65, 180]"
  by (simp add: remove_parenthetical_alternates_def p4 p5 tidy_8)

lemma alt_1: "extract_parenthetical_alternate [180] = None"
  by (simp add: extract_parenthetical_alternate_def inner_paren_re_def ev2)
lemma alt_2: "extract_parenthetical_alternate [65, 180, 32, 40, 65, 41] = Some [65]"
  by (simp add: extract_parenthetical_alternate_def inner_paren_re_def ev2)

lemma rd_1: "remove_diacritics ucd_sample (Str [180]) = Str [32]"
  unfolding remove_diacritics_Str by (simp add: decomp_sample ccc_sample)
lemma rd_2: "remove_diacritics ucd_sample (Str [65, 180, 32, 40, 65, 41]) = Str [65, 32, 32, 40, 65, 41]"
  unfolding remove_diacritics_Str by (simp add: decomp_sample ccc_sample)
lemma rd_3: "remove_diacritics ucd_sample (Str [65, 180]) = Str [65, 32]"
  unfolding remove_diacritics_Str by (simp add: decomp_sample ccc_sample)
lemma rd_4: "remove_diacritics ucd_sample (Str [65]) = Str [65]"
  unfolding remove_diacritics_Str by (simp add: decomp_sample ccc_sample)

lemma first_loop_2:
  "foldl add_candidate []
     [Some [65, 180, 32, 40, 65, 41], Some [65, 180], Some [65], Some [65, 180, 32, 40, 65, 41]] =
   [[65, 180, 32, 40, 65, 41], [65, 180], [65]]"
  by (simp add: add_candidate_def)

lemma second_loop_2:
  "foldl (add_translit ucd_sample) [[65, 180, 32, 40, 65, 41], [65, 180], [65]]
     [[65, 180, 32, 40, 65, 41], [65, 180], [65]] =
   [[65, 180, 32, 40, 65, 41], [65, 180], [65], [65, 32, 32, 40, 65, 41], [65, 32]]"
  by (simp add: add_translit_def rd_2 rd_3 rd_4 del: remove_diacritics.simps)

text \<open>
  Claim C5 fails on the code. The last line of \<open>generate_title_candidates\<close> applies
  \<open>tidy_whitespace\<close> after the test for the empty string and after the two membership
  tests, so a candidate that is only whitespace leaves the function as the empty string,
  and two candidates that differ only in whitespace leave it as the same string. The
  compatibility decomposition of the acute accent U+00B4 is a space followed by the
  combining acute U+0301: for the title that is the single character U+00B4 the
  diacritic-stripped variant is one space and the returned list is the title followed by
  the empty string; for the title \<open>A\<close>U+00B4\<open> (A)\<close> the short alternate \<open>A\<close> and the
  diacritic-stripped variant of the parenthetical-stripped form, \<open>A\<close> followed by a
  space, both leave the function as \<open>A\<close>.
\<close>

theorem empty_and_duplicate_candidates:
  "generate_title_candidates ucd_sample [180] = [[180], []]
   \<and> [] \<in> set (generate_title_candidates ucd_sample [180])
   \<and> generate_title_candidates ucd_sample [65, 180, 32, 40, 65, 41] =
       [[65, 180, 32, 40, 65, 41], [65, 180], [65], [65, 32, 40, 65, 41], [65]]
   \<and> \<not> distinct (generate_title_candidates ucd_sample [65, 180, 32, 40, 65, 41])"
proof -
  have one: "generate_title_candidates ucd_sample [180] = [[180], []]"
    by (simp add: generate_title_candidates_def Let_def add_candidate_def add_translit_def
        base_1 moved_1 paren_1 alt_1 rd_1 tidy_1 tidy_2 del: remove_diacritics.simps)
  have two: "generate_title_candidates ucd_sample [65, 180, 32, 40, 65, 41] =
       [[65, 180, 32, 40, 65, 41], [65, 180], [65], [65, 32, 40, 65, 41], [65]]"
    unfolding generate_title_candidates_def Let_def base_2 moved_2 paren_2 alt_2 first_loop_2
      second_loop_2
    by (simp add: tidy_3 tidy_4 tidy_5 tidy_6 tidy_7)
  show ?thesis
    unfolding one two by simp
qed

section \<open>Properties of \<open>remove_diacritics\<close>\<close>

text \<open>
  Claim C9, amended. Three parts of the claim hold, each under the facts of the Unicode
  tables it rests on. (1) With U+00E9 decomposing into \<open>e\<close> and the combining acute U+0301
  and with the ASCII code points their own decomposition and no combining marks,
  \<open>remove_diacritics\<close> maps \<open>Am\<close>U+00E9\<open>lie\<close> to \<open>Amelie\<close> and \<open>Amelie\<close> to itself. (2) It is
  idempotent, decompositions being full (every code point of a decomposition is its own
  decomposition). (3) A value that is not a string is returned as it is. The fourth part
  holds in the amended form: (4) a string is returned unchanged when every one of its
  code points is its own decomposition and is not a combining mark. As stated, with the
  condition that the input contains no combining marks after decomposition, it fails on
  the superscript two, as shown after the theorem.
\<close>

theorem strip_diacritics:
  "(decomp U 233 = [101, 769] \<and> ccc U 769 \<noteq> 0 \<and> (\<forall>c<128. decomp U c = [c] \<and> ccc U c = 0)
      \<longrightarrow> remove_diacritics U (Str amelie_accent) = Str (ascii ''Amelie'')
          \<and> remove_diacritics U (Str (ascii ''Amelie'')) = Str (ascii ''Amelie''))
   \<and> ((\<forall>c d. d \<in> set (decomp U c) \<longrightarrow> decomp U d = [d])
      \<longrightarrow> remove_diacritics U (remove_diacritics U v) = remove_diacritics U v)
   \<and> ((\<forall>c \<in> set s. decomp U c = [c] \<and> ccc U c = 0) \<longrightarrow> remove_diacritics U (Str s) = Str s)
   \<and> ((\<forall>s. v \<noteq> Str s) \<longrightarrow> remove_diacritics U v = v)"
proof (intro conjI impI)
  assume a: "decomp U 233 = [101, 769] \<and> ccc U 769 \<noteq> 0 \<and> (\<forall>c<128. decomp U c = [c] \<and> ccc U c = 0)"
  then have asc: "decomp U c = [c]" "ccc U c = 0" if "c < 128" for c
    using that by simp_all
  show "remove_diacritics U (Str amelie_accent) = Str (ascii ''Amelie'')"
    unfolding remove_diacritics_Str amelie_accent_def using a
    by (simp add: ascii_def asc)
  show "remove_diacritics U (Str (ascii ''Amelie'')) = Str (ascii ''Amelie'')"
    unfolding remove_diacritics_Str by (simp add: ascii_def asc)
next
  assume "\<forall>c d. d \<in> set (decomp U c) \<longrightarrow> decomp U d = [d]"
  then show "remove_diacritics U (remove_diacritics U v) = remove_diacritics U v"
    by (intro remove_diacritics_idem) blast
next
  assume "\<forall>c \<in> set s. decomp U c = [c] \<and> ccc U c = 0"
  then show "remove_diacritics U (Str s) = Str s"
    by (intro remove_diacritics_fixed) simp_all
next
  assume "\<forall>s. v \<noteq> Str s"
  then show "remove_diacritics U v = v"
    by (cases v) simp_all
qed

theorem strip_diacritics_witness:
  "remove_diacritics ucd_sample (Str amelie_accent) = Str (ascii ''Amelie'')
   \<and> remove_diacritics ucd_sample (Str (ascii ''Amelie'')) = Str (ascii ''Amelie'')
   \<and> remove_diacritics ucd_sample (remove_diacritics ucd_sample (Str amelie_accent)) =
       remove_diacritics ucd_sample (Str amelie_accent)
   \<and> remove_diacritics ucd_sample (Str [65, 66]) = Str [65, 66]
   \<and> remove_diacritics ucd_sample NoneVal = NoneVal"
proof -
  have t: "decomp ucd_sample 233 = [101, 769] \<and> ccc ucd_sample 769 \<noteq> 0
      \<and> (\<forall>c<128. decomp ucd_sample c = [c] \<and> ccc ucd_sample c = 0)"
    by (simp add: decomp_sample ccc_sample)
  have f: "\<forall>c d. d \<in> set (decomp ucd_sample c) \<longrightarrow> decomp ucd_sample d = [d]"
    using sample_full by blast
  have p: "\<forall>c \<in> set [65, 66]. decomp ucd_sample c = [c] \<and> ccc ucd_sample c = 0"
    by (simp add: decomp_sample ccc_sample)
  have n: "\<forall>s. NoneVal \<noteq> Str s" by simp
  show ?thesis
    using strip_diacritics [of ucd_sample "Str amelie_accent" "[65, 66]"]
      strip_diacritics [of ucd_sample NoneVal "[65, 66]"] t f p n
    by blast
qed

text \<open>
  The superscript two U+00B2 has the compatibility decomposition \<open>2\<close>: its decomposition
  contains no combining mark, and \<open>remove_diacritics\<close> returns the digit \<open>2\<close>, not the
  input.
\<close>

theorem superscript_counterexample:
  "has_no_marks ucd_sample (nfkd ucd_sample [178])
   \<and> remove_diacritics ucd_sample (Str [178]) = Str [50]
   \<and> remove_diacritics ucd_sample (Str [178]) \<noteq> Str [178]"
proof -
  have "nfkd ucd_sample [178] = [50]"
    by (simp add: nfkd_def decomp_sample ccc_sample)
  then show ?thesis
    by (simp add: has_no_marks_def ccc_sample)
qed

section \<open>Groups that take part in every match\<close>

lemma ms_keeps:
  "st' \<in> set (ms r st) \<Longrightarrow> snd (snd st) n \<noteq> None \<Longrightarrow> snd (snd st') n \<noteq> None"
proof (induction r st arbitrary: st' rule: ms.induct)
  case (1 p i s g)
  then show ?case by (auto split: list.splits if_splits)
next
  case (2 st)
  then show ?case by simp
next
  case (3 a b st)
  from 3(3) obtain mid where "mid \<in> set (ms a st)" "st' \<in> set (ms b mid)" by auto
  with 3 show ?case by blast
next
  case (4 a b st)
  from 4(3) have "st' \<in> set (ms a st) \<or> st' \<in> set (ms b st)" by simp
  with 4 show ?case by blast
next
  case (5 a i s g)
  show ?case
  proof (cases "st' = (i, s, g)")
    case True
    with 5(4) show ?thesis by simp
  next
    case False
    have "st' \<in> set (ms (Star a) (i, s, g))" by (rule 5(3))
    then have "st' = (i, s, g) \<or> (\<exists>j t h. (j, t, h) \<in> set (ms a (i, s, g)) \<and> length t < length s
        \<and> st' \<in> set (ms (Star a) (j, t, h)))"
      by (simp only: ms.simps(5) [of a i s g]) (auto split: if_splits simp del: ms.simps)
    with False obtain j t h where m: "(j, t, h) \<in> set (ms a (i, s, g))" "length t < length s"
      "st' \<in> set (ms (Star a) (j, t, h))"
      by blast
    have "h n \<noteq> None" using 5(1) [OF m(1)] 5(4) by simp
    with 5(2) [OF m(1) refl refl m(2) m(3)] show ?thesis by simp
  qed
next
  case (6 a i s g)
  show ?case
  proof (cases "st' = (i, s, g)")
    case True
    with 6(4) show ?thesis by simp
  next
    case False
    have "st' \<in> set (ms (Lazy a) (i, s, g))" by (rule 6(3))
    then have "st' = (i, s, g) \<or> (\<exists>j t h. (j, t, h) \<in> set (ms a (i, s, g)) \<and> length t < length s
        \<and> st' \<in> set (ms (Lazy a) (j, t, h)))"
      by (simp only: ms.simps(6) [of a i s g]) (auto split: if_splits simp del: ms.simps)
    with False obtain j t h where m: "(j, t, h) \<in> set (ms a (i, s, g))" "length t < length s"
      "st' \<in> set (ms (Lazy a) (j, t, h))"
      by blast
    have "h n \<noteq> None" using 6(1) [OF m(1)] 6(4) by simp
    with 6(2) [OF m(1) refl refl m(2) m(3)] show ?thesis by simp
  qed
next
  case (7 k a i s g)
  then show ?case by auto
next
  case (8 i s g)
  then show ?case by (auto split: if_splits)
next
  case (9 i s g)
  then show ?case by (auto split: if_splits)
qed


lemma ms_wrapped_group:
  assumes "st' \<in> set (ms (Seq a (Seq (Grp n b) c)) st)"
  shows "snd (snd st') n \<noteq> None"
proof -
  from assms obtain m1 m2 where m: "m1 \<in> set (ms a st)" "m2 \<in> set (ms (Grp n b) m1)"
    "st' \<in> set (ms c m2)"
    by auto
  obtain i s g where m1: "m1 = (i, s, g)" by (cases m1)
  from m(2) have "snd (snd m2) n \<noteq> None"
    unfolding m1 by auto
  with m(3) show ?thesis by (rule ms_keeps)
qed

lemma search_from_caps:
  "search_from r i s = Some m \<Longrightarrow> \<exists>st st'. st' \<in> set (ms r st) \<and> snd (snd m) = snd (snd st')"
proof (induction s arbitrary: i)
  case Nil
  then show ?case
    by (cases "ms r (i, [], Map.empty)") (auto, metis list.set_intros(1) snd_conv)
next
  case (Cons c cs)
  show ?case
  proof (cases "ms r (i, c # cs, Map.empty)")
    case Nil
    with Cons show ?thesis by simp
  next
    case (Cons st' rest)
    obtain j t g where st': "st' = (j, t, g)" by (cases st')
    from Cons.prems Cons st' have "m = (i, j, g)" by simp
    moreover have "st' \<in> set (ms r (i, c # cs, Map.empty))" using Cons by simp
    ultimately show ?thesis using st' by (metis snd_conv)
  qed
qed

lemma year_paren_group: "re_search (year_paren_re U) t = Some m \<Longrightarrow> group m 1 \<noteq> None"
proof -
  assume "re_search (year_paren_re U) t = Some m"
  then obtain st st' where a: "st' \<in> set (ms (year_paren_re U) st)" "snd (snd m) = snd (snd st')"
    unfolding re_search_def using search_from_caps by blast
  have "year_paren_re U = Seq (lit 40) (Seq (Grp 1 (times 4 (dg U))) (Seq (lit 41) Eps))"
    by (simp add: year_paren_re_def seqs_def)
  with a(1) have "snd (snd st') 1 \<noteq> None"
    using ms_wrapped_group by metis
  with a(2) show ?thesis by (cases m) (simp add: group_def)
qed

lemma inner_paren_group: "re_search inner_paren_re t = Some m \<Longrightarrow> group m 1 \<noteq> None"
proof -
  assume "re_search inner_paren_re t = Some m"
  then obtain st st' where a: "st' \<in> set (ms inner_paren_re st)" "snd (snd m) = snd (snd st')"
    unfolding re_search_def using search_from_caps by blast
  have "inner_paren_re = Seq (lit 40) (Seq (Grp 1 (plus (Cls (\<lambda>c. c \<noteq> 41)))) (Seq (lit 41) Eps))"
    by (simp add: inner_paren_re_def seqs_def)
  with a(1) have "snd (snd st') 1 \<noteq> None"
    using ms_wrapped_group by metis
  with a(2) show ?thesis by (cases m) (simp add: group_def)
qed

section \<open>The year patterns\<close>



lemma ms_Cls_Seq:
  "ms (Seq (Cls p) X) (i, s, g) =
     (case s of [] \<Rightarrow> [] | c # cs \<Rightarrow> if p c then ms X (Suc i, cs, g) else [])"
  by (simp split: list.splits)

lemma year_block_SomeD:
  "year_block U s = Some v \<Longrightarrow>
   \<exists>d1 d2 d3 d4. s = 40 # d1 # d2 # d3 # d4 # 41 # v
      \<and> isdecimal U d1 \<and> isdecimal U d2 \<and> isdecimal U d3 \<and> isdecimal U d4"
  by (induction U s rule: year_block.induct) (auto split: if_splits)

lemma year_block_NoneD:
  "year_block U (40 # d1 # d2 # d3 # d4 # 41 # v) = None \<Longrightarrow>
   \<not> (isdecimal U d1 \<and> isdecimal U d2 \<and> isdecimal U d3 \<and> isdecimal U d4)"
  by (simp split: if_splits)



lemma ms_Grp_block:
  "ms (Seq (lit 40) (Seq (Grp n (times 4 (dg U))) (Seq (lit 41) X))) (i, s, g) =
     (case year_block U s of
        Some v \<Rightarrow> ms X (i + 6, v, g(n \<mapsto> take 4 (tl s)))
      | None \<Rightarrow> [])"
  by (induction U s rule: year_block.induct)
     (simp_all add: lit_def dg_def times_def seqs_def numeral_eq_Suc ms_Cls_Seq split: list.splits)

lemma ms_year_paren:
  "ms (year_paren_re U) (i, s, g) =
     (case year_block U s of
        Some v \<Rightarrow> [(i + 6, v, g(1 \<mapsto> take 4 (tl s)))]
      | None \<Rightarrow> [])"
proof -
  have "year_paren_re U = Seq (lit 40) (Seq (Grp 1 (times 4 (dg U))) (Seq (lit 41) Eps))"
    by (simp add: year_paren_re_def seqs_def)
  then show ?thesis
    by (simp only: ms_Grp_block) (simp split: option.splits)
qed

lemma search_year_none:
  "(\<And>k. \<not> block_at U (drop k s)) \<Longrightarrow> search_from (year_paren_re U) i s = None"
proof (induction s arbitrary: i)
  case Nil
  show ?case by (simp add: ms_year_paren)
next
  case (Cons c cs)
  have "\<not> block_at U (drop 0 (c # cs))" by (rule Cons.prems)
  then have n: "year_block U (c # cs) = None" by (simp add: block_at_def)
  have "\<not> block_at U (drop k cs)" for k
    using Cons.prems [of "Suc k"] by simp
  then have "search_from (year_paren_re U) (Suc i) cs = None" by (rule Cons.IH)
  then show ?case by (simp add: ms_year_paren n)
qed

lemma search_year_first:
  "block_at U (drop k s) \<Longrightarrow> (\<And>j. j < k \<Longrightarrow> \<not> block_at U (drop j s)) \<Longrightarrow>
   \<exists>g. search_from (year_paren_re U) i s = Some (i + k, i + k + 6, g)
       \<and> g 1 = Some (take 4 (drop (Suc k) s))"
proof (induction k arbitrary: i s)
  case 0
  then obtain v where v: "year_block U s = Some v" by (auto simp: block_at_def)
  then obtain c cs where s: "s = c # cs" by (cases s) auto
  show ?case using v unfolding s by (simp add: ms_year_paren drop_Suc)
next
  case (Suc k)
  from Suc.prems(1) obtain c cs where s: "s = c # cs" by (cases s) (auto simp: block_at_def)
  have "\<not> block_at U (drop 0 s)" by (rule Suc.prems(2)) simp
  then have n: "year_block U (c # cs) = None" by (simp add: block_at_def s)
  have b: "block_at U (drop k cs)" using Suc.prems(1) by (simp add: s)
  have m: "\<not> block_at U (drop j cs)" if "j < k" for j
    using Suc.prems(2) [of "Suc j"] that by (simp add: s)
  have "\<exists>g. search_from (year_paren_re U) (Suc i) cs = Some (Suc i + k, Suc i + k + 6, g)
       \<and> g 1 = Some (take 4 (drop (Suc k) cs))"
    using b m by (rule Suc.IH)
  then show ?case by (simp add: s ms_year_paren n)
qed

lemma strip_by_id:
  assumes "s = [] \<or> (\<not> p (hd s) \<and> \<not> p (last s))"
  shows "strip_by p s = s"
proof -
  have "dropWhile p s = s"
    using assms by (auto simp: dropWhile_eq_self_iff)
  moreover have "dropWhile p (rev s) = rev s"
    using assms by (auto simp: dropWhile_eq_self_iff hd_rev)
  ultimately show ?thesis by (simp add: strip_by_def)
qed

lemma fullmatch_four_digits:
  assumes "digits_sane U" "isdecimal U d1" "isdecimal U d2" "isdecimal U d3" "isdecimal U d4"
  shows "fullmatch (int_re U) [d1, d2, d3, d4]"
proof -
  have n: "d \<noteq> 43 \<and> d \<noteq> 45 \<and> d \<noteq> 95" if "isdecimal U d" for d
    using assms(1) that by (simp add: digits_sane_def)
  show ?thesis
    using assms(2-5) n [OF assms(2)] n [OF assms(3)] n [OF assms(4)] n [OF assms(5)]
    by (simp add: fullmatch_def int_re_def ev)
qed

lemma py_int_four_digits:
  assumes "digits_sane U" "isdecimal U d1" "isdecimal U d2" "isdecimal U d3" "isdecimal U d4"
  shows "py_int U [d1, d2, d3, d4] = Inr (digits_value U [d1, d2, d3, d4])"
proof -
  have "\<not> number_space d1" "\<not> number_space d4" "d1 \<noteq> 45"
    using assms by (simp_all add: digits_sane_def number_space_def)
  then have "number_strip [d1, d2, d3, d4] = [d1, d2, d3, d4]"
    unfolding number_strip_def by (intro strip_by_id) simp
  then show ?thesis
    using fullmatch_four_digits [OF assms] \<open>d1 \<noteq> 45\<close> by (simp add: py_int_def)
qed

section \<open>The release year of a title\<close>

lemma block_at_shape:
  assumes "block_at U s"
  shows "\<exists>d1 d2 d3 d4 v. s = 40 # d1 # d2 # d3 # d4 # 41 # v
      \<and> isdecimal U d1 \<and> isdecimal U d2 \<and> isdecimal U d3 \<and> isdecimal U d4"
proof -
  from assms obtain v where "year_block U s = Some v"
    by (auto simp: block_at_def)
  from year_block_SomeD [OF this] show ?thesis by blast
qed

lemma block_at_paren: "block_at U (drop i t) \<Longrightarrow> 40 \<in> set t"
proof -
  assume "block_at U (drop i t)"
  from block_at_shape [OF this] have "40 \<in> set (drop i t)" by auto
  then show ?thesis by (rule in_set_dropD)
qed

lemma release_year_none:
  "(\<And>i. \<not> block_at U (drop i t)) \<Longrightarrow> release_year U t = Inr None"
  by (simp add: release_year_def re_search_def search_year_none)

lemma release_year_first:
  assumes sane: "digits_sane U"
    and b: "block_at U (drop k t)"
    and m: "\<And>j. j < k \<Longrightarrow> \<not> block_at U (drop j t)"
  shows "release_year U t = Inr (Some (digits_value U (take 4 (drop (Suc k) t))))"
proof -
  from block_at_shape [OF b] obtain d1 d2 d3 d4 v where
    s: "drop k t = 40 # d1 # d2 # d3 # d4 # 41 # v"
    and d: "isdecimal U d1" "isdecimal U d2" "isdecimal U d3" "isdecimal U d4"
    by blast
  have "drop (Suc k) t = tl (drop k t)"
    by (simp add: drop_Suc drop_tl)
  then have g: "take 4 (drop (Suc k) t) = [d1, d2, d3, d4]"
    by (simp add: s)
  from search_year_first [of U k t 0, OF b m] obtain c where
    c: "search_from (year_paren_re U) 0 t = Some (k, k + 6, c)"
       "c 1 = Some (take 4 (drop (Suc k) t))"
    by auto
  show ?thesis
    using c py_int_four_digits [OF sane d]
    by (simp add: release_year_def re_search_def group_def fmt_def g)
qed

lemma digits_sane_sample: "digits_sane ucd_sample"
  by (auto simp: digits_sane_def isdecimal_sample isspace_def)

text \<open>
  Claim C7, amended. The release year is read from the first year block of the raw title,
  wherever it stands: if a year block starts at position \<open>k\<close> and none starts before \<open>k\<close>,
  the release year is the integer that \<open>int\<close> reads from the four digits of that block; if
  no year block starts anywhere in the title, the release year is absent. The expression
  never raises. (The digits are those of the Unicode tables, of which the theorem uses
  that no decimal digit is whitespace, a sign or the underscore.) As the claim states it,
  with the year taken from a block at the end of the string only, it fails: the pattern
  is searched for with \<open>re.search\<close> and has no anchor, as shown after the theorem.
\<close>

theorem release_year_first_block:
  assumes "digits_sane U"
  shows "((\<forall>i. \<not> block_at U (drop i t)) \<longrightarrow> release_year U t = Inr None)
    \<and> (block_at U (drop k t) \<and> (\<forall>j<k. \<not> block_at U (drop j t)) \<longrightarrow>
         release_year U t = Inr (Some (digits_value U (take 4 (drop (Suc k) t)))))
    \<and> (\<exists>y. release_year U t = Inr y)"
proof (intro conjI impI)
  assume "\<forall>i. \<not> block_at U (drop i t)"
  then show "release_year U t = Inr None"
    by (intro release_year_none) simp
next
  assume "block_at U (drop k t) \<and> (\<forall>j<k. \<not> block_at U (drop j t))"
  then show "release_year U t = Inr (Some (digits_value U (take 4 (drop (Suc k) t))))"
    by (intro release_year_first assms) simp_all
next
  show "\<exists>y. release_year U t = Inr y"
  proof (cases "\<exists>i. block_at U (drop i t)")
    case False
    then have "release_year U t = Inr None"
      by (intro release_year_none) simp
    then show ?thesis by simp
  next
    case True
    define n where "n = (LEAST i. block_at U (drop i t))"
    have "block_at U (drop n t)"
      unfolding n_def using True by (auto intro: LeastI)
    moreover have "\<not> block_at U (drop j t)" if "j < n" for j
      using that unfolding n_def by (rule not_less_Least)
    ultimately have "release_year U t = Inr (Some (digits_value U (take 4 (drop (Suc n) t))))"
      using assms by (intro release_year_first)
    then show ?thesis by simp
  qed
qed

theorem release_year_first_block_witness:
  "release_year ucd_sample (ascii ''Toy'') = Inr None
   \<and> release_year ucd_sample (ascii ''Toy (1995)'') = Inr (Some 1995)"
proof -
  have a: "\<forall>i. \<not> block_at ucd_sample (drop i (ascii ''Toy''))"
  proof (intro allI notI)
    fix i assume "block_at ucd_sample (drop i (ascii ''Toy''))"
    then have "40 \<in> set (ascii ''Toy'')" by (rule block_at_paren)
    then show False by (simp add: ascii_def)
  qed
  have t: "ascii ''Toy (1995)'' = [84, 111, 121, 32, 40, 49, 57, 57, 53, 41]"
    by (simp add: ascii_def)
  have b: "block_at ucd_sample (drop 4 (ascii ''Toy (1995)''))"
    unfolding t by (simp add: block_at_def isdecimal_sample)
  have c: "\<forall>j<4. \<not> block_at ucd_sample (drop j (ascii ''Toy (1995)''))"
  proof (intro allI impI)
    fix j :: nat assume "j < 4"
    then have "j = 0 \<or> j = 1 \<or> j = 2 \<or> j = 3" by arith
    then show "\<not> block_at ucd_sample (drop j (ascii ''Toy (1995)''))"
      unfolding t by (auto simp: block_at_def)
  qed
  have v: "digits_value ucd_sample (take 4 (drop (Suc 4) (ascii ''Toy (1995)''))) = 1995"
    unfolding t by (simp add: digits_value_def decimal_sample)
  show ?thesis
    using release_year_first_block [OF digits_sane_sample, of "ascii ''Toy''" 0]
      release_year_first_block [OF digits_sane_sample, of "ascii ''Toy (1995)''" 4] a b c v
    by simp
qed

text \<open>
  The title \<open>A (2018) B\<close> does not end with a year block, and its release year is 2018.
\<close>

theorem year_in_the_middle_counterexample:
  "\<not> ends_with_year ucd_sample (ascii ''A (2018) B'')
   \<and> release_year ucd_sample (ascii ''A (2018) B'') = Inr (Some 2018)"
proof -
  have t: "ascii ''A (2018) B'' = [65, 32, 40, 50, 48, 49, 56, 41, 32, 66]"
    by (simp add: ascii_def)
  have b: "block_at ucd_sample (drop 2 (ascii ''A (2018) B''))"
    unfolding t by (simp add: block_at_def isdecimal_sample)
  have c: "\<not> block_at ucd_sample (drop j (ascii ''A (2018) B''))" if "j < 2" for j
  proof -
    from that have "j = 0 \<or> j = 1" by arith
    then show ?thesis unfolding t by (auto simp: block_at_def)
  qed
  have v: "digits_value ucd_sample (take 4 (drop (Suc 2) (ascii ''A (2018) B''))) = 2018"
    unfolding t by (simp add: digits_value_def decimal_sample)
  have "release_year ucd_sample (ascii ''A (2018) B'') = Inr (Some 2018)"
    using release_year_first [OF digits_sane_sample b c] v by simp
  moreover have "\<not> ends_with_year ucd_sample (ascii ''A (2018) B'')"
    unfolding t by (simp add: ends_with_year_def)
  ultimately show ?thesis by simp
qed

section \<open>The substitution of \<open>base_clean\<close>\<close>

text \<open>
  From here on the equations of the matcher are used one at a time, through the lemmas
  above and below.
\<close>

declare ms.simps [simp del]














lemma trimr_idem: "rev (dropWhile p (rev (rev (dropWhile p (rev s))))) = rev (dropWhile p (rev s))"
  by simp










section \<open>The substitution of \<open>tidy_whitespace\<close>\<close>


















section \<open>Cleaning a title with a trailing year\<close>














end
